theory Spec2Isabelle
  imports Main
begin

section \<open>Time\<close>

text \<open>
  Points in time (\<open>pendulum\<close> date-times) are whole seconds since the epoch, and intervals
  are whole seconds. Logging calls of the source are not modelled.
\<close>

type_synonym datetime = int
type_synonym duration = int

definition minutes :: "int \<Rightarrow> duration" where
  "minutes m = m * 60"

definition days :: "int \<Rightarrow> duration" where
  "days d = d * 86400"

section \<open>Errors\<close>

datatype timeout_reason = Job_failed | Job_skipped | Did_not_start | Did_not_finish

datatype py_error =
    JobTimeoutException timeout_reason duration
  | KeyError
  | TypeError
  | NameError string

section \<open>AdsInsights.wait_for_job\<close>

record job =
  async_status :: string
  async_percent_completion :: int

definition MAX_WAIT_TO_START :: duration where
  "MAX_WAIT_TO_START = minutes 5"

definition MAX_WAIT_TO_FINISH :: duration where
  "MAX_WAIT_TO_FINISH = minutes 30"

definition MAX_ASYNC_SLEEP :: duration where
  "MAX_ASYNC_SLEEP = minutes 5"

datatype poll_decision = Return | Raise py_error | Sleep

text \<open>
  The second statement of the loop body calls \<open>logger.info\<close> on the bare name
  \<open>logger\<close>. The module binds no such name: it imports none, and every other logging
  call goes through \<open>self.logger\<close>. Evaluating the name raises \<open>NameError\<close>, before
  the arguments of the call are looked at.
\<close>

definition logger :: "py_error + unit" where
  "logger = Inl (NameError ''logger'')"

text \<open>
  The tests that follow in the loop body, from the test for a completed job to the one for
  the finish timeout: the job as fetched and the time elapsed since \<open>start_time\<close> decide
  whether the loop returns, raises or goes on to sleep.
\<close>

definition check_job :: "job \<Rightarrow> duration \<Rightarrow> poll_decision" where
  "check_job j runtime =
     (if async_status j = ''Job Completed'' then Return
      else if async_status j = ''Job Failed'' then Raise (JobTimeoutException Job_failed runtime)
      else if async_status j = ''Job Skipped'' then Raise (JobTimeoutException Job_skipped runtime)
      else if runtime > MAX_WAIT_TO_START \<and> async_percent_completion j = 0
        then Raise (JobTimeoutException Did_not_start runtime)
      else if runtime > MAX_WAIT_TO_FINISH
        then Raise (JobTimeoutException Did_not_finish runtime)
      else Sleep)"

definition factor :: int where
  "factor = 2"

text \<open>The last statement of the loop body: the duration of the next sleep.\<close>

definition next_sleep_seconds :: "int \<Rightarrow> int" where
  "next_sleep_seconds sleep_seconds =
     (if sleep_seconds < MAX_ASYNC_SLEEP then sleep_seconds * factor else sleep_seconds)"

text \<open>
  The environment of the loop: \<open>api n\<close> is the answer of the \<open>n\<close>-th call of
  \<open>job.api_get()\<close>, and \<open>lat n\<close> the seconds that call takes. The clock starts when
  \<open>wait_for_job\<close> is entered and advances by these and by the sleeps. The loop has no
  bound of its own, so it is a partial function: \<open>None\<close> is a run that never leaves the
  loop. The result is what the loop returns or raises, with the durations passed to
  \<open>time.sleep\<close>, in order. The decorator \<open>backoff_policy\<close> retries on
  \<open>FacebookRequestError\<close>, which the loop does not raise; every other exception leaves
  \<open>wait_for_job\<close> as it is.
\<close>

partial_function (option) wait_loop ::
  "(nat \<Rightarrow> job) \<Rightarrow> (nat \<Rightarrow> duration) \<Rightarrow> nat \<Rightarrow> duration \<Rightarrow> int \<Rightarrow> int list
     \<Rightarrow> ((py_error + job) \<times> int list) option" where
  "wait_loop api lat n elapsed sleep_seconds slept =
     (let j = api n in
      case logger of
        Inl e \<Rightarrow> Some (Inl e, slept)
      | Inr u \<Rightarrow>
          (let runtime = elapsed + lat n in
           case check_job j runtime of
             Return \<Rightarrow> Some (Inr j, slept)
           | Raise e \<Rightarrow> Some (Inl e, slept)
           | Sleep \<Rightarrow>
               wait_loop api lat (Suc n) (runtime + sleep_seconds)
                 (next_sleep_seconds sleep_seconds) (slept @ [sleep_seconds])))"

declare wait_loop.simps [code]

definition wait_for_job ::
  "(nat \<Rightarrow> job) \<Rightarrow> (nat \<Rightarrow> duration) \<Rightarrow> ((py_error + job) \<times> int list) option" where
  "wait_for_job api lat = wait_loop api lat 0 0 factor []"

section \<open>FBMarketingStream\<close>

text \<open>
  Request parameters are dictionaries; the values the streams put into them are the page
  limit and lists of filter clauses. A filter clause is the dictionary with the keys
  \<open>field\<close>, \<open>operator\<close> and \<open>value\<close>.
\<close>

datatype filter_value = Labels "string list" | Timestamp int

record filter_clause =
  field :: string
  operator :: string
  filter_value :: filter_value

datatype param_value = PInt int | PFiltering "filter_clause list"

type_synonym params = "string \<rightharpoonup> param_value"

text \<open>The class attributes of a stream class, as its subclasses override them.\<close>

record stream_class =
  enable_deleted :: bool
  split_deleted_filter :: bool
  entity_prefix :: "string option"
  page_size :: int
  buffer_days :: int
  cursor_field :: string

text \<open>The defaults of \<open>FBMarketingStream\<close> and \<open>FBMarketingIncrementalStream\<close>.\<close>

definition FBMarketingIncrementalStream :: stream_class where
  "FBMarketingIncrementalStream =
     \<lparr>enable_deleted = False, split_deleted_filter = False, entity_prefix = None,
      page_size = 100, buffer_days = - 1, cursor_field = ''updated_time''\<rparr>"

definition Campaigns :: stream_class where
  "Campaigns = FBMarketingIncrementalStream
     \<lparr>entity_prefix := Some ''campaign'', enable_deleted := True\<rparr>"

definition AdsInsights :: stream_class where
  "AdsInsights = FBMarketingIncrementalStream \<lparr>entity_prefix := Some []\<rparr>"

text \<open>An instance: the class and the attribute \<open>_include_deleted\<close> set by \<open>__init__\<close>.\<close>

record fb_stream =
  cls :: stream_class
  include_deleted :: bool

definition init :: "stream_class \<Rightarrow> bool \<Rightarrow> fb_stream" where
  "init c incl = \<lparr>cls = c, include_deleted = (if enable_deleted c then incl else False)\<rparr>"

definition filt_values :: "string list" where
  "filt_values =
     [''active'', ''archived'', ''completed'', ''limited'', ''not_delivering'', ''deleted'',
      ''not_published'', ''pending_review'', ''permanently_deleted'', ''recently_completed'',
      ''recently_rejected'', ''rejected'', ''scheduled'', ''inactive'']"

text \<open>
  \<open>range(start, stop, step)\<close> for a positive step. Python raises \<open>ValueError\<close> for the
  step 0; \<open>_status_slices\<close> only ever passes 3 or the length of the list.
\<close>

function range_step :: "nat \<Rightarrow> nat \<Rightarrow> nat \<Rightarrow> nat list" where
  "range_step i stop step =
     (if i < stop \<and> 0 < step then i # range_step (i + step) stop step else [])"
  by pat_completeness auto
termination
  by (relation "measure (\<lambda>(i, stop, step). stop - i)") auto

declare range_step.simps [simp del]

text \<open>The slice \<open>xs[i : i + n]\<close>.\<close>

definition slice :: "'a list \<Rightarrow> nat \<Rightarrow> nat \<Rightarrow> 'a list" where
  "slice xs i n = take n (drop i xs)"

text \<open>The formatting of \<open>entity_prefix\<close> in an f-string: \<open>None\<close> prints as its name.\<close>

definition format_prefix :: "string option \<Rightarrow> string" where
  "format_prefix p = (case p of None \<Rightarrow> ''None'' | Some x \<Rightarrow> x)"

definition status_filter :: "string option \<Rightarrow> string list \<Rightarrow> params" where
  "status_filter prefix chunk =
     [''filtering'' \<mapsto> PFiltering
        [\<lparr>field = format_prefix prefix @ ''.delivery_info'', operator = ''IN'',
          filter_value = Labels chunk\<rparr>]]"

text \<open>The loop of \<open>_status_slices\<close> for a given \<open>sub_list_length\<close>.\<close>

definition status_chunks :: "nat \<Rightarrow> string list list" where
  "status_chunks sub_list_length =
     map (\<lambda>i. slice filt_values i sub_list_length)
       (range_step 0 (length filt_values) sub_list_length)"

definition sub_list_length :: "'a fb_stream_scheme \<Rightarrow> nat" where
  "sub_list_length s = (if split_deleted_filter (cls s) then 3 else length filt_values)"

definition status_slices :: "'a fb_stream_scheme \<Rightarrow> params list" where
  "status_slices s =
     map (status_filter (entity_prefix (cls s))) (status_chunks (sub_list_length s))"

text \<open>The labels a slice filters on.\<close>

definition slice_labels :: "params \<Rightarrow> string list" where
  "slice_labels p =
     (case p ''filtering'' of
        Some (PFiltering [c]) \<Rightarrow> (case filter_value c of Labels ls \<Rightarrow> ls | _ \<Rightarrow> [])
      | _ \<Rightarrow> [])"

definition build_params :: "'a fb_stream_scheme \<Rightarrow> params \<Rightarrow> params" where
  "build_params s ps = [''limit'' \<mapsto> PInt (page_size (cls s))] ++ ps"

text \<open>
  \<open>FBMarketingStream.read\<close>. The method \<open>_build_params\<close> is looked up on the instance
  (the incremental streams override it), so it is the argument \<open>bp\<close>; \<open>deep_merge\<close> is
  imported from the module \<open>common\<close> and is the argument \<open>dm\<close>. The generator's output is
  the list of what it yields.
\<close>

definition read ::
  "'a fb_stream_scheme \<Rightarrow> (params \<Rightarrow> params) \<Rightarrow> (params \<Rightarrow> params \<Rightarrow> params)
     \<Rightarrow> (params \<Rightarrow> 'r list) \<Rightarrow> params \<Rightarrow> 'r list" where
  "read s bp dm getter ps =
     (if include_deleted s
      then concat (map (\<lambda>sf. getter (bp (dm ps sf))) (status_slices s))
      else getter (bp ps))"

section \<open>FBMarketingIncrementalStream\<close>

text \<open>
  The incremental streams add \<open>_start_date\<close> and the bookmark \<open>_state\<close>; \<open>None\<close> is a
  bookmark that is not set. \<open>__init__\<close> does not assign \<open>_state\<close>: the bookmark
  that an instance holds when it is read is the argument \<open>st\<close>. A date-time is never falsy, so the truth tests of the source on
  \<open>_state\<close> and \<open>latest_cursor\<close> are tests for \<open>None\<close>.
\<close>

record incremental_stream = fb_stream +
  start_date :: "datetime option"
  state :: "datetime option"

definition init_incremental ::
  "stream_class \<Rightarrow> bool \<Rightarrow> datetime option \<Rightarrow> datetime option \<Rightarrow> incremental_stream" where
  "init_incremental c incl sd st =
     \<lparr>cls = c, include_deleted = include_deleted (init c incl), start_date = sd, state = st\<rparr>"

definition state_filter :: "'a incremental_stream_scheme \<Rightarrow> params" where
  "state_filter s =
     (case state s of
        Some st \<Rightarrow>
          [''filtering'' \<mapsto> PFiltering
             [\<lparr>field = format_prefix (entity_prefix (cls s)) @ ''.'' @ cursor_field (cls s),
               operator = ''GREATER_THAN'', filter_value = Timestamp st\<rparr>]]
      | None \<Rightarrow> Map.empty)"

definition build_params_incremental ::
  "'a incremental_stream_scheme \<Rightarrow> (params \<Rightarrow> params \<Rightarrow> params) \<Rightarrow> params \<Rightarrow> params" where
  "build_params_incremental s dm ps = dm (build_params s ps) (state_filter s)"

text \<open>
  A record read from the API is a dictionary; only its date-time fields matter here, and
  \<open>pendulum.parse\<close> of a field is the value stored. A missing field raises \<open>KeyError\<close>.
\<close>

type_synonym fb_record = "string \<rightharpoonup> datetime"

text \<open>The test of \<open>read\<close> that skips a record.\<close>

definition skipped :: "datetime option \<Rightarrow> int \<Rightarrow> datetime \<Rightarrow> bool" where
  "skipped st bd cursor =
     (case st of None \<Rightarrow> False | Some w \<Rightarrow> w - days (bd + 1) \<ge> cursor)"

text \<open>
  The loop of \<open>FBMarketingIncrementalStream.read\<close> over the records of \<open>super().read\<close>:
  the records yielded, and either the exception that ends the loop or \<open>latest_cursor\<close>.
\<close>

fun read_loop ::
  "string \<Rightarrow> datetime option \<Rightarrow> int \<Rightarrow> datetime option \<Rightarrow> fb_record list
     \<Rightarrow> fb_record list \<times> (py_error + datetime option)" where
  "read_loop cf st bd latest_cursor [] = ([], Inr latest_cursor)"
| "read_loop cf st bd latest_cursor (r # rs) =
     (case r cf of
        None \<Rightarrow> ([], Inl KeyError)
      | Some cursor \<Rightarrow>
          if skipped st bd cursor then read_loop cf st bd latest_cursor rs
          else
            (let latest_cursor' =
                   (case latest_cursor of None \<Rightarrow> cursor | Some l \<Rightarrow> max cursor l);
                 (ys, res) = read_loop cf st bd (Some latest_cursor') rs
             in (r # ys, res)))"

text \<open>
  One pass of \<open>read\<close> run to its end over the records \<open>recs\<close> that \<open>super().read\<close>
  produces: the records yielded, the exception raised if any, and the stream afterwards.
  The bookmark is written only when the loop has ended without an exception.
\<close>

definition read_pass ::
  "incremental_stream \<Rightarrow> fb_record list
     \<Rightarrow> fb_record list \<times> py_error option \<times> incremental_stream" where
  "read_pass s recs =
     (case read_loop (cursor_field (cls s)) (state s) (buffer_days (cls s)) None recs of
        (ys, Inl e) \<Rightarrow> (ys, Some e, s)
      | (ys, Inr None) \<Rightarrow> (ys, None, s)
      | (ys, Inr (Some latest_cursor)) \<Rightarrow>
          (ys, None,
           s\<lparr>state := Some (case state s of None \<Rightarrow> latest_cursor
                                          | Some w \<Rightarrow> max latest_cursor w)\<rparr>))"

definition read_incremental ::
  "incremental_stream \<Rightarrow> (params \<Rightarrow> params \<Rightarrow> params) \<Rightarrow> (params \<Rightarrow> fb_record list) \<Rightarrow> params
     \<Rightarrow> fb_record list \<times> py_error option \<times> incremental_stream" where
  "read_incremental s dm getter ps =
     read_pass s (read s (build_params_incremental s dm) dm getter ps)"

text \<open>Successive reads of one stream: the bookmark after each pass.\<close>

fun reads :: "incremental_stream \<Rightarrow> fb_record list list \<Rightarrow> datetime option list" where
  "reads s [] = []"
| "reads s (recs # rest) =
     (let s' = snd (snd (read_pass s recs)) in state s' # reads s' rest)"

section \<open>AdsInsights._params\<close>

text \<open>
  \<open>AdsInsights.__init__\<close> stores its argument \<open>buffer_days\<close> in the attribute
  \<open>_buffer_days\<close> (here \<open>arg_buffer_days\<close>), next to the class attribute
  \<open>buffer_days\<close>, and sets the bookmark to the start date.
\<close>

record ads_insights = incremental_stream +
  arg_buffer_days :: int
  sync_interval :: duration

definition init_ads_insights ::
  "stream_class \<Rightarrow> bool \<Rightarrow> datetime \<Rightarrow> int \<Rightarrow> int \<Rightarrow> ads_insights" where
  "init_ads_insights c incl sd bd days_per_job =
     \<lparr>cls = c, include_deleted = include_deleted (init c incl), start_date = Some sd,
      state = Some sd, arg_buffer_days = bd, sync_interval = days days_per_job\<rparr>"

text \<open>
  A request carries the dates of its window under \<open>time_range\<close>; the other keys of the
  request do not depend on the window. \<open>to_date_string\<close> keeps the day of a date-time,
  here the number of the day.
\<close>

record time_range =
  since :: int
  until :: int

definition to_date_string :: "datetime \<Rightarrow> int" where
  "to_date_string t = t div 86400"

text \<open>
  The \<open>while\<close> loop of \<open>_params\<close>, with the requests yielded so far. It does not end
  when the interval is not positive: the result is then \<open>None\<close>.
\<close>

partial_function (option) params_loop ::
  "datetime \<Rightarrow> datetime \<Rightarrow> duration \<Rightarrow> time_range list \<Rightarrow> time_range list option" where
  "params_loop buffered_start_date end_date interval yielded =
     (if buffered_start_date \<le> end_date
      then
        (let buffered_end_date = buffered_start_date + interval in
         params_loop buffered_end_date end_date interval
           (yielded @ [\<lparr>since = to_date_string buffered_start_date,
                         until = to_date_string buffered_end_date\<rparr>]))
      else Some yielded)"

declare params_loop.simps [code]

text \<open>\<open>_params\<close> at the time \<open>now\<close>; subtracting from a bookmark that is \<open>None\<close> raises.\<close>

definition ads_params :: "ads_insights \<Rightarrow> datetime \<Rightarrow> (py_error + time_range list) option" where
  "ads_params s now =
     (case state s of
        None \<Rightarrow> Some (Inl TypeError)
      | Some st \<Rightarrow>
          map_option Inr
            (params_loop (st - days (buffer_days (cls s))) now (sync_interval s) []))"

section \<open>AWS CloudTrail streams\<close>

text \<open>
  An event of a response, with the type of its \<open>EventTime\<close> as a parameter: the API
  returns a date-time there, and \<open>parse_response\<close> replaces it by the integer timestamp
  that \<open>datetime_to_timestamp\<close> (the argument \<open>to_ts\<close>) computes.
\<close>

record 't event =
  EventId :: string
  EventTime :: 't

record 't response =
  Events :: "'t event list"
  NextToken :: "string option"

record request =
  MaxResults :: int
  StartTime :: "int option"
  NextToken_param :: "string option"

record cloudtrail_stream =
  limit :: int
  stream_start_date :: int

type_synonym stream_state = "string \<rightharpoonup> int"

definition ct_cursor_field :: string where
  "ct_cursor_field = ''StartTime''"

text \<open>The truth value of an optional string: \<open>None\<close> and the empty string are falsy.\<close>

definition truthy :: "string option \<Rightarrow> bool" where
  "truthy t = (case t of None \<Rightarrow> False | Some x \<Rightarrow> x \<noteq> [])"

definition next_page_token :: "'t response \<Rightarrow> string option" where
  "next_page_token resp = NextToken resp"

text \<open>
  \<open>IncrementalAwsCloudtrailStream.request_params\<close>, with the parameters of the parent
  class: the start date and the cursor of the state are both written under the key
  \<open>StartTime\<close>, the cursor last, and each only when it is not zero.
\<close>

definition request_params :: "cloudtrail_stream \<Rightarrow> stream_state \<Rightarrow> string option \<Rightarrow> request" where
  "request_params s st tok =
     (let p0 = \<lparr>MaxResults = limit s, StartTime = None, NextToken_param = None\<rparr>;
          p1 = (if stream_start_date s \<noteq> 0 then p0\<lparr>StartTime := Some (stream_start_date s)\<rparr> else p0);
          p2 = (if truthy tok then p1\<lparr>NextToken_param := tok\<rparr> else p1)
      in case st ct_cursor_field of
           None \<Rightarrow> p2
         | Some cursor_data \<Rightarrow> if cursor_data \<noteq> 0 then p2\<lparr>StartTime := Some cursor_data\<rparr> else p2)"

definition parse_response :: "('t \<Rightarrow> int) \<Rightarrow> 't response \<Rightarrow> int event list" where
  "parse_response to_ts resp =
     map (\<lambda>e. \<lparr>EventId = EventId e, EventTime = to_ts (EventTime e)\<rparr>) (Events resp)"

text \<open>
  The loop of \<open>read_records\<close>: \<open>send_request\<close> is the API. A listing that never stops
  handing out tokens keeps the loop running, so the loop is a partial function.
\<close>

partial_function (option) read_records_loop ::
  "cloudtrail_stream \<Rightarrow> (request \<Rightarrow> 't response) \<Rightarrow> ('t \<Rightarrow> int) \<Rightarrow> stream_state
     \<Rightarrow> string option \<Rightarrow> int event list \<Rightarrow> int event list option" where
  "read_records_loop s send_request to_ts st tok yielded =
     (let ps = request_params s st tok;
          resp = send_request ps;
          yielded' = yielded @ parse_response to_ts resp;
          tok' = next_page_token resp
      in if \<not> truthy tok' then Some yielded'
         else read_records_loop s send_request to_ts st tok' yielded')"

declare read_records_loop.simps [code]

definition read_records ::
  "cloudtrail_stream \<Rightarrow> (request \<Rightarrow> 't response) \<Rightarrow> ('t \<Rightarrow> int) \<Rightarrow> stream_state
     \<Rightarrow> int event list option" where
  "read_records s send_request to_ts st = read_records_loop s send_request to_ts st None []"

text \<open>
  \<open>get_updated_state\<close>: \<open>time_field\<close> is \<open>EventTime\<close> for the stream of events.
\<close>

definition get_updated_state :: "stream_state \<Rightarrow> int event \<Rightarrow> stream_state" where
  "get_updated_state current_stream_state latest_record =
     (let record_time = EventTime latest_record in
      [ct_cursor_field \<mapsto>
         max record_time
           (case current_stream_state ct_cursor_field of None \<Rightarrow> 0 | Some c \<Rightarrow> c)])"

section \<open>Notions used by the properties\<close>


text \<open>
  The API serves the finite sequence of pages \<open>pages\<close> to the paginator that starts with
  the token \<open>tok\<close>: the request built for \<open>tok\<close> is answered by the first page, every page
  but the last carries a token, in the sense of the test the loop makes on it, for which the
  API answers with the rest of the sequence, and the last page carries none.
\<close>

fun served ::
  "cloudtrail_stream \<Rightarrow> (request \<Rightarrow> 't response) \<Rightarrow> stream_state \<Rightarrow> string option
     \<Rightarrow> 't response list \<Rightarrow> bool" where
  "served s send_request st tok [] = False"
| "served s send_request st tok [p] =
     (send_request (request_params s st tok) = p \<and> \<not> truthy (next_page_token p))"
| "served s send_request st tok (p # q # ps) =
     (send_request (request_params s st tok) = p \<and> truthy (next_page_token p)
      \<and> served s send_request st (next_page_token p) (q # ps))"

text \<open>An API with two pages, for the examples.\<close>

definition two_pages :: "request \<Rightarrow> int response" where
  "two_pages rq =
     (if NextToken_param rq = None
      then \<lparr>Events = [\<lparr>EventId = ''a'', EventTime = 1\<rparr>, \<lparr>EventId = ''b'', EventTime = 2\<rparr>],
            NextToken = Some ''t1''\<rparr>
      else \<lparr>Events = [\<lparr>EventId = ''c'', EventTime = 3\<rparr>], NextToken = None\<rparr>)"

text \<open>
  The order of bookmarks: one that is not set is below every date-time.
\<close>

definition bookmark_le :: "datetime option \<Rightarrow> datetime option \<Rightarrow> bool" where
  "bookmark_le a b =
     (case a of None \<Rightarrow> True | Some x \<Rightarrow> (case b of None \<Rightarrow> False | Some y \<Rightarrow> x \<le> y))"

text \<open>The cursor values of a list of records.\<close>

definition cursors :: "string \<Rightarrow> fb_record list \<Rightarrow> datetime set" where
  "cursors cf rs = (\<lambda>r. the (r cf)) ` set rs"

text \<open>
  For the examples: a record updated at the start of day \<open>d\<close>, and a stream of campaigns
  whose bookmark is the start of day \<open>d\<close>.
\<close>

definition rec_at :: "int \<Rightarrow> fb_record" where
  "rec_at d = [''updated_time'' \<mapsto> days d]"

definition campaigns_at :: "int \<Rightarrow> incremental_stream" where
  "campaigns_at d = init_incremental Campaigns False None (Some (days d))"

section \<open>Properties of the job poller\<close>


text \<open>
  No run reaches the statements after the logging call. As they are written, the sleep
  durations would be doubled from 256 to 512 seconds and stay there.
\<close>

lemma next_sleep_seconds_256: "next_sleep_seconds 256 = 512 \<and> next_sleep_seconds 512 = 512"
  by (simp add: next_sleep_seconds_def MAX_ASYNC_SLEEP_def minutes_def factor_def)



text \<open>
  C6. The claim is that a job that has not ended and reports progress 0 percent raises the
  error "did not start" once more than 5 minutes have elapsed. For a running job with
  progress 0 whose first status fetch takes 5 minutes and 1 second, the first iteration is
  made with that time elapsed since \<open>wait_for_job\<close> was entered, and it raises
  \<open>NameError\<close> at the logging call: the test for the start timeout is not reached.
\<close>

theorem start_timeout_not_reached:
  "wait_for_job (\<lambda>n. \<lparr>async_status = ''Job Running'', async_percent_completion = 0\<rparr>)
       (\<lambda>n. minutes 5 + 1)
     = Some (Inl (NameError ''logger''), [])"
  by code_simp

text \<open>
  C7. The claim is that an iteration on a job that has not ended, made after more than 30
  minutes, raises the error "did not finish". For a running job with progress 50 percent
  whose first status fetch takes 30 minutes and 1 second, the iteration raises
  \<open>NameError\<close> at the logging call: the test for the finish timeout is not reached.
\<close>

theorem finish_timeout_not_reached:
  "wait_for_job (\<lambda>n. \<lparr>async_status = ''Job Running'', async_percent_completion = 50\<rparr>)
       (\<lambda>n. minutes 30 + 1)
     = Some (Inl (NameError ''logger''), [])"
  by code_simp

section \<open>Properties of the status slices\<close>

lemma range_step_chunks:
  "0 < n \<Longrightarrow> concat (map (\<lambda>i. slice xs i n) (range_step i (length xs) n)) = drop i xs"
proof (induction i "length xs" n rule: range_step.induct)
  case (1 i step)
  show ?case
  proof (cases "i < length xs")
    case True
    have "take step (drop i xs) @ drop (i + step) xs = drop i xs"
      by (metis add.commute append_take_drop_id drop_drop)
    with 1 True show ?thesis
      by (simp add: range_step.simps [of i] slice_def)
  next
    case False
    then show ?thesis by (simp add: range_step.simps [of i])
  qed
qed

lemma status_chunks_concat: "0 < n \<Longrightarrow> concat (status_chunks n) = filt_values"
  using range_step_chunks [of n filt_values 0] by (simp add: status_chunks_def)

lemma range_step_bound: "j \<in> set (range_step i stop n) \<Longrightarrow> j < stop"
proof (induction i stop n rule: range_step.induct)
  case (1 i stop step)
  from "1.prems" show ?case
    using "1.IH" by (auto simp add: range_step.simps [of i] split: if_splits)
qed

lemma distinct_filt_values: "distinct filt_values"
  by (simp add: filt_values_def)

lemma slice_labels_status_filter: "slice_labels (status_filter p c) = c"
  by (simp add: slice_labels_def status_filter_def)

lemma slice_labels_status_slices:
  "map slice_labels (status_slices s) = status_chunks (sub_list_length s)"
  by (simp add: status_slices_def comp_def slice_labels_status_filter)

lemma status_chunks_14: "status_chunks 14 = [filt_values]"
  by code_simp

lemma status_chunks_3: "status_chunks 3 =
  [[''active'', ''archived'', ''completed''],
  [''limited'', ''not_delivering'', ''deleted''],
  [''not_published'', ''pending_review'', ''permanently_deleted''],
  [''recently_completed'', ''recently_rejected'', ''rejected''],
  [''scheduled'', ''inactive'']]"
  by code_simp

lemma length_filt_values: "length filt_values = 14"
  by (simp add: filt_values_def)

lemma status_chunks_sizes:
  assumes "0 < n" and "c \<in> set (status_chunks n)"
  shows "c \<noteq> [] \<and> length c \<le> n"
proof -
  from assms(2) obtain i where i: "i \<in> set (range_step 0 (length filt_values) n)"
    and c: "c = slice filt_values i n"
    by (auto simp add: status_chunks_def)
  have "i < length filt_values"
    using range_step_bound [OF i] .
  with assms(1) c show ?thesis by (simp add: slice_def)
qed

text \<open>
  C8. For every chunk size of at least 1, the chunks of the slicing loop concatenate to the
  list of the 14 status labels, in its order; the labels are distinct, so each label occurs
  in exactly one chunk, once, and every chunk is non-empty and no longer than the chunk
  size. The slices of a stream concatenate to the list as well: when
  \<open>split_deleted_filter\<close> is false there is a single slice with all 14 labels, and when
  it is true the chunk size is 3 and the slices are four of three labels and a last one of
  the two labels left.
\<close>

theorem status_slices_cover:
  "(0 < n \<longrightarrow>
      concat (status_chunks n) = filt_values \<and> distinct (concat (status_chunks n))
      \<and> (\<forall>c \<in> set (status_chunks n). c \<noteq> [] \<and> length c \<le> n))
   \<and> length filt_values = 14
   \<and> concat (map slice_labels (status_slices s)) = filt_values
   \<and> (\<not> split_deleted_filter (cls s) \<longrightarrow> map slice_labels (status_slices s) = [filt_values])
   \<and> (split_deleted_filter (cls s) \<longrightarrow>
        map slice_labels (status_slices s) = status_chunks 3
        \<and> status_chunks 3 =
            [[''active'', ''archived'', ''completed''],
             [''limited'', ''not_delivering'', ''deleted''],
             [''not_published'', ''pending_review'', ''permanently_deleted''],
             [''recently_completed'', ''recently_rejected'', ''rejected''],
             [''scheduled'', ''inactive'']])"
proof -
  have a: "0 < n \<longrightarrow>
      concat (status_chunks n) = filt_values \<and> distinct (concat (status_chunks n))
      \<and> (\<forall>c \<in> set (status_chunks n). c \<noteq> [] \<and> length c \<le> n)"
    using status_chunks_sizes [of n]
    by (simp add: status_chunks_concat distinct_filt_values)
  have b: "concat (map slice_labels (status_slices s)) = filt_values"
    by (simp add: slice_labels_status_slices status_chunks_concat sub_list_length_def
          length_filt_values)
  have c: "\<not> split_deleted_filter (cls s) \<longrightarrow> map slice_labels (status_slices s) = [filt_values]"
    by (simp add: slice_labels_status_slices sub_list_length_def length_filt_values
          status_chunks_14)
  have d: "split_deleted_filter (cls s) \<longrightarrow> map slice_labels (status_slices s) = status_chunks 3"
    by (simp add: slice_labels_status_slices sub_list_length_def)
  from a b c d show ?thesis
    using length_filt_values status_chunks_3 by blast
qed

theorem status_slices_cover_witness:
  "concat (status_chunks 5) = filt_values
   \<and> map slice_labels (status_slices (init Campaigns True)) = [filt_values]
   \<and> map slice_labels (status_slices (init (Campaigns\<lparr>split_deleted_filter := True\<rparr>) True))
       = status_chunks 3"
  using status_slices_cover [of 5 "init Campaigns True"]
    status_slices_cover [of 5 "init (Campaigns\<lparr>split_deleted_filter := True\<rparr>) True"]
  by (simp add: init_def Campaigns_def FBMarketingIncrementalStream_def)

text \<open>
  C10. A stream made on a class whose \<open>enable_deleted\<close> is false has
  \<open>_include_deleted\<close> false whatever the argument \<open>include_deleted\<close> is, and its
  \<open>read\<close> makes the single request with the parameters as given, without a status
  filter; the same holds for an incremental stream.
\<close>

theorem disabled_deleted_never_sliced:
  assumes "\<not> enable_deleted c"
  shows "include_deleted (init c incl) = False
       \<and> read (init c incl) bp dm getter ps = getter (bp ps)
       \<and> include_deleted (init_incremental c incl sd st) = False
       \<and> read (init_incremental c incl sd st) bp dm getter ps = getter (bp ps)"
  using assms by (simp add: init_def init_incremental_def read_def)

theorem disabled_deleted_never_sliced_witness:
  "include_deleted (init AdsInsights True) = False
   \<and> read (init AdsInsights True) (build_params (init AdsInsights True)) (++)
        (\<lambda>p. [p ''limit'']) Map.empty = [Some (PInt 100)]"
  using disabled_deleted_never_sliced [of AdsInsights True "build_params (init AdsInsights True)"
          "(++)" "\<lambda>p. [p ''limit'']" Map.empty]
  by (simp add: AdsInsights_def FBMarketingIncrementalStream_def build_params_def init_def)

section \<open>Properties of the bookmark\<close>

lemma read_loop_yielded:
  "\<forall>r \<in> set recs. r cf \<noteq> None \<Longrightarrow> read_loop cf st bd latest recs = (ys, res) \<Longrightarrow>
     ys = filter (\<lambda>r. \<not> skipped st bd (the (r cf))) recs"
  by (induction recs arbitrary: latest ys) (auto split: prod.splits if_splits)

lemma read_loop_no_error:
  "\<forall>r \<in> set recs. r cf \<noteq> None \<Longrightarrow> read_loop cf st bd latest recs = (ys, res) \<Longrightarrow>
     \<exists>l. res = Inr l"
  by (induction recs arbitrary: latest ys) (auto split: prod.splits if_splits)

lemma read_loop_kept:
  "read_loop cf st bd latest recs = (ys, res) \<Longrightarrow> r \<in> set ys \<Longrightarrow>
     \<exists>c. r cf = Some c \<and> \<not> skipped st bd c"
  by (induction recs arbitrary: latest ys) (auto split: prod.splits option.splits if_splits)

lemma read_loop_latest:
  "read_loop cf st bd latest recs = (ys, Inr l) \<Longrightarrow>
     l = (if ys = [] then latest else Some (Max (cursors cf ys \<union> set_option latest)))"
proof (induction recs arbitrary: latest ys)
  case Nil
  then show ?case by simp
next
  case (Cons r rs)
  show ?case
  proof (cases "r cf")
    case None
    with Cons.prems show ?thesis by simp
  next
    case (Some cursor)
    show ?thesis
    proof (cases "skipped st bd cursor")
      case True
      with Cons Some show ?thesis by simp
    next
      case False
      define latest' where "latest' = (case latest of None \<Rightarrow> cursor | Some l \<Rightarrow> max cursor l)"
      obtain ys' res where rl: "read_loop cf st bd (Some latest') rs = (ys', res)"
        by (cases "read_loop cf st bd (Some latest') rs")
      from Cons.prems Some False rl have ys: "ys = r # ys'" and res: "res = Inr l"
        by (simp_all add: latest'_def)
      from Cons.IH [of "Some latest'" ys'] rl res
      have l: "l = (if ys' = [] then Some latest'
                    else Some (Max (cursors cf ys' \<union> {latest'})))"
        by simp
      have fin: "finite (cursors cf ys')" by (simp add: cursors_def)
      have c: "cursors cf ys = insert cursor (cursors cf ys')"
        by (simp add: ys cursors_def Some)
      show ?thesis
      proof (cases latest)
        case None
        then have "latest' = cursor" by (simp add: latest'_def)
        with l c None ys show ?thesis by (auto simp add: cursors_def)
      next
        case (Some l0)
        then have l': "latest' = max cursor l0" by (simp add: latest'_def)
        show ?thesis
        proof (cases "ys' = []")
          case True
          with l l' c Some ys show ?thesis by (simp add: cursors_def)
        next
          case False
          then have ne: "cursors cf ys' \<noteq> {}" by (simp add: cursors_def)
          have "Max (insert (max cursor l0) (cursors cf ys'))
                  = Max (insert cursor (insert l0 (cursors cf ys')))"
            using fin ne by (simp add: max.assoc)
          with l l' c Some ys False show ?thesis by (simp add: insert_commute)
        qed
      qed
    qed
  qed
qed

lemma read_pass_yielded:
  assumes "\<forall>r \<in> set recs. r (cursor_field (cls s)) \<noteq> None"
  shows "fst (read_pass s recs)
           = filter (\<lambda>r. \<not> skipped (state s) (buffer_days (cls s)) (the (r (cursor_field (cls s)))))
               recs"
proof -
  obtain ys res where rl:
    "read_loop (cursor_field (cls s)) (state s) (buffer_days (cls s)) None recs = (ys, res)"
    by (cases "read_loop (cursor_field (cls s)) (state s) (buffer_days (cls s)) None recs")
  from read_loop_yielded [OF assms rl] rl show ?thesis
    by (simp add: read_pass_def split: sum.splits option.splits)
qed

text \<open>
  C3. The claim is that a record is skipped if and only if its cursor value is strictly
  older than the bookmark minus \<open>buffer_days + 1\<close> days. The source skips a record
  whose cursor value equals that boundary too: with the bookmark at day 100 and
  \<open>buffer_days = -1\<close> the boundary is day 100, and a record with cursor value day 100 is
  not yielded although it is not strictly older than the boundary.
\<close>

theorem read_skips_up_to_boundary_counterexample:
  "fst (read_pass (campaigns_at 100) [rec_at 100]) = []
   \<and> state (campaigns_at 100) = Some (days 100)
   \<and> \<not> (the (rec_at 100 (cursor_field (cls (campaigns_at 100))))
          < days 100 - days (buffer_days (cls (campaigns_at 100)) + 1))"
  by (simp add: read_pass_def campaigns_at_def rec_at_def init_incremental_def Campaigns_def
        FBMarketingIncrementalStream_def skipped_def days_def)

text \<open>
  C3, as amended. With the bookmark set to \<open>w\<close> and every record traversed carrying
  the cursor field, the records yielded are, in order, those whose cursor value is newer
  than \<open>w\<close> minus \<open>buffer_days + 1\<close> days: a record is skipped if and only if its
  cursor value is older than or equal to that boundary. When \<open>buffer_days\<close> is at most
  -1 (it is -1 in every stream class of the source) every record at or before the bookmark
  is skipped, and when it is at least -1 every record newer than the bookmark is
  yielded.
\<close>

theorem read_skips_up_to_boundary:
  assumes "state s = Some w" and "\<forall>r \<in> set recs. r (cursor_field (cls s)) \<noteq> None"
  shows "fst (read_pass s recs)
           = filter (\<lambda>r. \<not> the (r (cursor_field (cls s))) \<le> w - days (buffer_days (cls s) + 1))
               recs
       \<and> (\<forall>r \<in> set recs.
             (r \<notin> set (fst (read_pass s recs)))
               = (the (r (cursor_field (cls s))) \<le> w - days (buffer_days (cls s) + 1)))
       \<and> (buffer_days (cls s) \<le> - 1 \<longrightarrow>
             (\<forall>r \<in> set recs. the (r (cursor_field (cls s))) \<le> w
                 \<longrightarrow> r \<notin> set (fst (read_pass s recs))))
       \<and> (- 1 \<le> buffer_days (cls s) \<longrightarrow>
             (\<forall>r \<in> set recs. w < the (r (cursor_field (cls s)))
                 \<longrightarrow> r \<in> set (fst (read_pass s recs))))"
proof -
  let ?cf = "cursor_field (cls s)" and ?bd = "buffer_days (cls s)"
  have y: "fst (read_pass s recs) = filter (\<lambda>r. \<not> the (r ?cf) \<le> w - days (?bd + 1)) recs"
    using read_pass_yielded [OF assms(2)] assms(1) by (simp add: skipped_def)
  have iff: "\<forall>r \<in> set recs.
               (r \<notin> set (fst (read_pass s recs))) = (the (r ?cf) \<le> w - days (?bd + 1))"
    by (simp add: y)
  have older: "?bd \<le> - 1 \<longrightarrow>
      (\<forall>r \<in> set recs. the (r ?cf) \<le> w \<longrightarrow> r \<notin> set (fst (read_pass s recs)))"
  proof (intro impI ballI)
    fix r assume bd: "?bd \<le> - 1" and r: "r \<in> set recs" and c: "the (r ?cf) \<le> w"
    from bd have "0 \<le> - days (?bd + 1)" by (simp add: days_def)
    with c have "the (r ?cf) \<le> w - days (?bd + 1)" by simp
    with iff r show "r \<notin> set (fst (read_pass s recs))" by simp
  qed
  have newer: "- 1 \<le> ?bd \<longrightarrow>
      (\<forall>r \<in> set recs. w < the (r ?cf) \<longrightarrow> r \<in> set (fst (read_pass s recs)))"
  proof (intro impI ballI)
    fix r assume bd: "- 1 \<le> ?bd" and r: "r \<in> set recs" and c: "w < the (r ?cf)"
    from bd have "0 \<le> days (?bd + 1)" by (simp add: days_def)
    with c have "\<not> the (r ?cf) \<le> w - days (?bd + 1)" by simp
    with iff r show "r \<in> set (fst (read_pass s recs))" by blast
  qed
  from y iff older newer show ?thesis by blast
qed

theorem read_skips_up_to_boundary_witness:
  "state (campaigns_at 100) = Some (days 100)
   \<and> rec_at 99 (cursor_field (cls (campaigns_at 100))) = Some (days 99)
   \<and> rec_at 100 (cursor_field (cls (campaigns_at 100))) = Some (days 100)
   \<and> rec_at 101 (cursor_field (cls (campaigns_at 100))) = Some (days 101)
   \<and> buffer_days (cls (campaigns_at 100)) = - 1
   \<and> fst (read_pass (campaigns_at 100) [rec_at 99, rec_at 100, rec_at 101]) = [rec_at 101]"
  using read_skips_up_to_boundary [of "campaigns_at 100" "days 100"
          "[rec_at 99, rec_at 100, rec_at 101]"]
  by (simp add: campaigns_at_def rec_at_def init_incremental_def Campaigns_def
        FBMarketingIncrementalStream_def days_def)

lemma bookmark_le_refl: "bookmark_le a a"
  by (simp add: bookmark_le_def split: option.splits)

lemma bookmark_le_trans: "bookmark_le a b \<Longrightarrow> bookmark_le b c \<Longrightarrow> bookmark_le a c"
  by (auto simp add: bookmark_le_def split: option.splits)

lemma read_pass_bookmark_le: "bookmark_le (state s) (state (snd (snd (read_pass s recs))))"
  by (simp add: read_pass_def bookmark_le_def split: prod.splits sum.splits option.splits)

lemma read_pass_nothing_yielded:
  assumes "fst (read_pass s recs) = []"
  shows "snd (snd (read_pass s recs)) = s"
proof -
  obtain ys res where rl:
    "read_loop (cursor_field (cls s)) (state s) (buffer_days (cls s)) None recs = (ys, res)"
    by (cases "read_loop (cursor_field (cls s)) (state s) (buffer_days (cls s)) None recs")
  with assms have ys: "ys = []"
    by (simp add: read_pass_def split: sum.splits option.splits)
  show ?thesis
  proof (cases res)
    case (Inl e)
    with rl show ?thesis by (simp add: read_pass_def)
  next
    case (Inr l)
    with rl ys read_loop_latest [of "cursor_field (cls s)" "state s" "buffer_days (cls s)" None recs ys l]
    have "l = None" by simp
    with rl Inr show ?thesis by (simp add: read_pass_def)
  qed
qed

lemma read_pass_advanced:
  assumes "fst (snd (read_pass s recs)) = None" and "fst (read_pass s recs) \<noteq> []"
  shows "state (snd (snd (read_pass s recs)))
           = Some (Max (cursors (cursor_field (cls s)) (fst (read_pass s recs))
                        \<union> set_option (state s)))"
proof -
  let ?cf = "cursor_field (cls s)"
  obtain ys res where rl:
    "read_loop ?cf (state s) (buffer_days (cls s)) None recs = (ys, res)"
    by (cases "read_loop ?cf (state s) (buffer_days (cls s)) None recs")
  with assms obtain l where res: "res = Inr l" and ys: "fst (read_pass s recs) = ys" "ys \<noteq> []"
    by (cases res) (auto simp add: read_pass_def split: option.splits)
  from read_loop_latest [of ?cf "state s" "buffer_days (cls s)" None recs ys l] rl res ys
  have l: "l = Some (Max (cursors ?cf ys))" by simp
  have fin: "finite (cursors ?cf ys)" and ne: "cursors ?cf ys \<noteq> {}"
    using ys by (simp_all add: cursors_def)
  show ?thesis
  proof (cases "state s")
    case None
    with rl res l ys show ?thesis by (simp add: read_pass_def)
  next
    case (Some w)
    have "Max (insert w (cursors ?cf ys)) = max (Max (cursors ?cf ys)) w"
      using fin ne by (simp add: max.commute)
    with Some rl res l ys show ?thesis by (simp add: read_pass_def)
  qed
qed

lemma read_pass_kept_newer:
  assumes "state s = Some w" and "buffer_days (cls s) \<le> - 1"
    and "c \<in> cursors (cursor_field (cls s)) (fst (read_pass s recs))"
  shows "w < c"
proof -
  let ?cf = "cursor_field (cls s)"
  obtain ys res where rl:
    "read_loop ?cf (state s) (buffer_days (cls s)) None recs = (ys, res)"
    by (cases "read_loop ?cf (state s) (buffer_days (cls s)) None recs")
  then have ys: "fst (read_pass s recs) = ys"
    by (simp add: read_pass_def split: sum.splits option.splits)
  with assms(3) obtain r where r: "r \<in> set ys" and c: "c = the (r ?cf)"
    by (auto simp add: cursors_def)
  from read_loop_kept [OF rl r] c have "\<not> skipped (state s) (buffer_days (cls s)) c"
    by auto
  with assms(1) have "w - days (buffer_days (cls s) + 1) < c"
    by (simp add: skipped_def)
  moreover from assms(2) have "0 \<le> - days (buffer_days (cls s) + 1)"
    by (simp add: days_def)
  ultimately show ?thesis by simp
qed

lemma read_pass_advanced_exact:
  assumes "fst (snd (read_pass s recs)) = None" and "fst (read_pass s recs) \<noteq> []"
    and "buffer_days (cls s) \<le> - 1"
  shows "state (snd (snd (read_pass s recs)))
           = Some (Max (cursors (cursor_field (cls s)) (fst (read_pass s recs))))"
proof (cases "state s")
  case None
  with read_pass_advanced [OF assms(1,2)] show ?thesis by simp
next
  case (Some w)
  let ?C = "cursors (cursor_field (cls s)) (fst (read_pass s recs))"
  have fin: "finite ?C" and ne: "?C \<noteq> {}"
    using assms(2) by (simp_all add: cursors_def)
  then have "Max ?C \<in> ?C" by (rule Max_in)
  then have "w < Max ?C" by (rule read_pass_kept_newer [OF Some assms(3)])
  then have "Max (insert w ?C) = Max ?C"
    using fin ne by (simp add: max.absorb2)
  with read_pass_advanced [OF assms(1,2)] Some show ?thesis by simp
qed

lemma reads_sorted: "sorted_wrt bookmark_le (state s # reads s batches)"
proof (induction batches arbitrary: s)
  case Nil
  show ?case by simp
next
  case (Cons recs rest)
  let ?s' = "snd (snd (read_pass s recs))"
  have step: "bookmark_le (state s) (state ?s')" by (rule read_pass_bookmark_le)
  have ih: "sorted_wrt bookmark_le (state ?s' # reads ?s' rest)" by (rule Cons.IH)
  then have "\<forall>x \<in> set (reads ?s' rest). bookmark_le (state ?s') x" by simp
  with step have "\<forall>x \<in> set (reads ?s' rest). bookmark_le (state s) x"
    using bookmark_le_trans by blast
  with step ih show ?case by (simp add: Let_def)
qed

text \<open>
  C5. Over any sequence of read passes of one stream, each run to its end, the bookmarks
  are in non-decreasing order, starting with the one before the first pass. A pass never
  lowers the bookmark; a pass that yields nothing leaves the stream as it was; a pass that
  yields records and raises nothing sets the bookmark to the greatest of the cursor values
  yielded and the bookmark before, which is the greatest cursor value yielded when
  \<open>buffer_days\<close> is at most -1, as it is in every stream class of the source.
\<close>

theorem bookmark_never_regresses:
  "sorted_wrt bookmark_le (state s # reads s batches)
   \<and> bookmark_le (state s) (state (snd (snd (read_pass s recs))))
   \<and> (fst (read_pass s recs) = [] \<longrightarrow> snd (snd (read_pass s recs)) = s)
   \<and> (fst (snd (read_pass s recs)) = None \<and> fst (read_pass s recs) \<noteq> [] \<longrightarrow>
        state (snd (snd (read_pass s recs)))
          = Some (Max (cursors (cursor_field (cls s)) (fst (read_pass s recs))
                       \<union> set_option (state s))))
   \<and> (fst (snd (read_pass s recs)) = None \<and> fst (read_pass s recs) \<noteq> []
        \<and> buffer_days (cls s) \<le> - 1 \<longrightarrow>
        state (snd (snd (read_pass s recs)))
          = Some (Max (cursors (cursor_field (cls s)) (fst (read_pass s recs)))))"
  using reads_sorted [of s batches] read_pass_bookmark_le [of s recs]
    read_pass_nothing_yielded [of s recs] read_pass_advanced [of s recs]
    read_pass_advanced_exact [of s recs]
  by blast

theorem bookmark_never_regresses_witness:
  "reads (campaigns_at 100) [[rec_at 101, rec_at 105, rec_at 103], [rec_at 104], [], [rec_at 107]]
     = [Some (days 105), Some (days 105), Some (days 105), Some (days 107)]
   \<and> sorted_wrt bookmark_le
       [Some (days 100), Some (days 105), Some (days 105), Some (days 105), Some (days 107)]
   \<and> fst (read_pass (campaigns_at 100) [rec_at 101, rec_at 105, rec_at 103])
       = [rec_at 101, rec_at 105, rec_at 103]
   \<and> state (snd (snd (read_pass (campaigns_at 100) [rec_at 101, rec_at 105, rec_at 103])))
       = Some (days 105)"
  using bookmark_never_regresses [of "campaigns_at 100"
          "[[rec_at 101, rec_at 105, rec_at 103], [rec_at 104], [], [rec_at 107]]"
          "[rec_at 101, rec_at 105, rec_at 103]"]
  by (simp add: campaigns_at_def rec_at_def init_incremental_def Campaigns_def
        FBMarketingIncrementalStream_def days_def read_pass_def skipped_def Let_def
        bookmark_le_def init_def)

section \<open>Properties of the job planner\<close>

text \<open>
  C2. The claim is that the windows start at the bookmark minus the configured buffer, so
  that the bookmark at day 100, a buffer of 5 days, windows of 10 days and the present at
  day 130 give the windows from 95, 105, 115 and 125. \<open>_params\<close> subtracts the class
  attribute \<open>buffer_days\<close>, which is -1, and not the configured value kept in
  \<open>_buffer_days\<close>: the windows are those from 101, 111 and 121, each of 10 days.
\<close>

theorem ads_params_ignores_configured_buffer:
  "ads_params (init_ads_insights AdsInsights False (days 100) 5 10) (days 130)
     = Some (Inr [\<lparr>since = 101, until = 111\<rparr>, \<lparr>since = 111, until = 121\<rparr>,
                  \<lparr>since = 121, until = 131\<rparr>])"
  by code_simp

section \<open>Properties of the CloudTrail stream\<close>

text \<open>
  C4. The state returned by \<open>get_updated_state\<close> holds, under the cursor field and
  nothing else, the greater of the time of the latest record and the cursor of the current
  state, with zero for a current state without a cursor; so it is never smaller than a
  cursor that the current state holds.
\<close>

theorem get_updated_state_max:
  "get_updated_state cur r ct_cursor_field
     = Some (max (EventTime r) (case cur ct_cursor_field of None \<Rightarrow> 0 | Some c \<Rightarrow> c))
   \<and> dom (get_updated_state cur r) = {ct_cursor_field}
   \<and> (\<forall>c. cur ct_cursor_field = Some c \<longrightarrow>
          (\<exists>c'. get_updated_state cur r ct_cursor_field = Some c' \<and> c \<le> c'))"
  by (auto simp add: get_updated_state_def)

theorem get_updated_state_max_witness:
  "get_updated_state [''StartTime'' \<mapsto> 7] \<lparr>EventId = ''e'', EventTime = 5\<rparr> ''StartTime'' = Some 7
   \<and> get_updated_state Map.empty \<lparr>EventId = ''e'', EventTime = 5\<rparr> ''StartTime'' = Some 5"
  using get_updated_state_max [of "[''StartTime'' \<mapsto> 7]" "\<lparr>EventId = ''e'', EventTime = 5\<rparr>"]
    get_updated_state_max [of Map.empty "\<lparr>EventId = ''e'', EventTime = 5\<rparr>"]
  by (simp add: ct_cursor_field_def)

lemma read_records_loop_served:
  "served s send_request st tok pages \<Longrightarrow>
     read_records_loop s send_request to_ts st tok acc
       = Some (acc @ concat (map (parse_response to_ts) pages))"
proof (induction s send_request st tok pages arbitrary: acc rule: served.induct)
  case (1 s send_request st tok)
  then show ?case by simp
next
  case (2 s send_request st tok p)
  then show ?case
    by (subst read_records_loop.simps) (simp add: Let_def)
next
  case (3 s send_request st tok p q ps)
  from "3.prems" have p: "send_request (request_params s st tok) = p"
    and t: "truthy (next_page_token p)"
    and rest: "served s send_request st (next_page_token p) (q # ps)"
    by simp_all
  show ?case
    by (subst read_records_loop.simps) (simp add: Let_def p t "3.IH" [OF rest])
qed

text \<open>
  C9. When the API serves a finite sequence of pages, each but the last carrying a token
  and the last none, \<open>read_records\<close> returns, and what it yields is the records of the
  pages, as parsed, every one once, in the order of the pages.
\<close>

theorem read_records_all_pages:
  assumes "served s send_request st None pages"
  shows "read_records s send_request to_ts st = Some (concat (map (parse_response to_ts) pages))"
  using read_records_loop_served [OF assms, of to_ts "[]"] by (simp add: read_records_def)

theorem read_records_all_pages_witness:
  "read_records \<lparr>limit = 25, stream_start_date = 0\<rparr> two_pages (\<lambda>t. t) Map.empty
     = Some [\<lparr>EventId = ''a'', EventTime = 1\<rparr>, \<lparr>EventId = ''b'', EventTime = 2\<rparr>,
             \<lparr>EventId = ''c'', EventTime = 3\<rparr>]"
  using read_records_all_pages [of "\<lparr>limit = 25, stream_start_date = 0\<rparr>" two_pages Map.empty
      "[\<lparr>Events = [\<lparr>EventId = ''a'', EventTime = 1\<rparr>, \<lparr>EventId = ''b'', EventTime = 2\<rparr>],
            NextToken = Some ''t1''\<rparr>, \<lparr>Events = [\<lparr>EventId = ''c'', EventTime = 3\<rparr>], NextToken = None\<rparr>]"
      "\<lambda>t. t"]
  by (simp add: two_pages_def request_params_def truthy_def next_page_token_def
        parse_response_def)

end
